theory Spec2Isabelle
  imports Main
begin

section \<open>The AHP bridge extension: data model\<close>

text \<open>
  The browser bridge of gnosis-ahp consists of a background script
  (\<^verbatim>\<open>ahp-bridge-extension/background.js\<close>) holding the token broker and the message
  listener, and of content scripts (\<^verbatim>\<open>content.js\<close>, \<^verbatim>\<open>chatgpt_content.js\<close>) that detect
  URLs in code regions and inject results. The scripts are JavaScript; everything they
  do beyond computing a value (storage, clock, network, DOM, messages) is made explicit
  below: storage is a state record, the clock and the network are oracles of an
  environment record, exceptions and rejected promises are the \<open>Inl\<close> side of a sum.
\<close>

subsection \<open>JSON values and the JavaScript operations the scripts apply to them\<close>

text \<open>
  A parsed JSON body. Numbers are integers here (a JSON number with a fraction is not
  represented; the scripts only test numbers for truthiness). An object is the list of
  its members, in which a key occurs once.
\<close>

datatype json =
    JNull
  | JBool bool
  | JNum int
  | JStr string
  | JArr "json list"
  | JObj "(string \<times> json) list"

text \<open>JavaScript truthiness of a JSON value; \<open>None\<close> below stands for \<^verbatim>\<open>undefined\<close>.\<close>

fun truthy :: "json \<Rightarrow> bool" where
  "truthy JNull = False"
| "truthy (JBool b) = b"
| "truthy (JNum n) = (n \<noteq> 0)"
| "truthy (JStr s) = (s \<noteq> [])"
| "truthy (JArr _) = True"
| "truthy (JObj _) = True"

definition truthy_opt :: "json option \<Rightarrow> bool" where
  "truthy_opt v = (case v of None \<Rightarrow> False | Some j \<Rightarrow> truthy j)"


text \<open>
  Property read \<^verbatim>\<open>v.k\<close> on a non-null value, for the keys the scripts read
  (\<^verbatim>\<open>bearer_token\<close>, \<^verbatim>\<open>error\<close>, \<^verbatim>\<open>message\<close>): the member of an object, \<^verbatim>\<open>undefined\<close> on
  anything else. Reading a property of \<^verbatim>\<open>null\<close> throws; the callers test for it first.
\<close>

fun get_prop :: "json \<Rightarrow> string \<Rightarrow> json option" where
  "get_prop (JObj kvs) k = map_of kvs k"
| "get_prop _ k = None"

text \<open>
  What a script throws or a promise rejects with. \<open>Error\<close> is \<^verbatim>\<open>new Error(msg)\<close> of the
  script itself; \<open>Engine\<close> is an exception of the runtime (the \<^verbatim>\<open>TypeError\<close> of a failed
  fetch, of a property read on \<^verbatim>\<open>null\<close> or of an invalid URL, the \<^verbatim>\<open>SyntaxError\<close> of a
  body that is not JSON) with the message the runtime gave it.
\<close>

datatype js_exn = Error string | Engine string

fun message :: "js_exn \<Rightarrow> string" where
  "message (Error m) = m"
| "message (Engine m) = m"

subsection \<open>Storage, network and environment\<close>

text \<open>
  \<^verbatim>\<open>chrome.storage.session\<close> holds the cached token under the keys \<^verbatim>\<open>bearerToken\<close> and
  \<^verbatim>\<open>tokenExpiry\<close>; only \<^verbatim>\<open>getBearerToken\<close> writes them. \<^verbatim>\<open>chrome.storage.sync\<close> holds
  \<^verbatim>\<open>ahpSettings\<close>, written by the popup; a field that is absent is \<open>None\<close>.
\<close>

record session =
  bearerToken :: "json option"
  tokenExpiry :: "int option"

record settings =
  serverType :: "string option"
  customServerUrl :: "string option"
  email :: "string option"
  preSharedKey :: "string option"

text \<open>
  The outcome of \<^verbatim>\<open>fetch(url)\<close> followed by \<^verbatim>\<open>response.json()\<close>: the fetch rejects, or
  it resolves to a response with its \<^verbatim>\<open>ok\<close> flag whose body is JSON or is not.
\<close>

datatype body = Json json | NotJson string

datatype fetch_result = Rejected string | Response bool body

datatype net_call = AuthFetch string | ToolFetch string

text \<open>
  The environment of one run: the two readings of \<^verbatim>\<open>Date.now()\<close> in \<^verbatim>\<open>getBearerToken\<close>
  (at the cache check and after the auth response), the stored settings, the network as
  seen from the two call sites of \<^verbatim>\<open>fetch\<close>, and the built-ins of the runtime that the
  scripts call and that are not part of the repository: string conversion of a value
  that is not a string, \<^verbatim>\<open>JSON.stringify\<close>, the messages of the runtime's own exceptions,
  and the parsing of the part of a URL before its query.
\<close>

record env =
  now_check :: int
  now_store :: int
  ahpSettings :: "settings option"
  auth_fetch :: "string \<Rightarrow> fetch_result"
  tool_fetch :: "string \<Rightarrow> fetch_result"
  ToString :: "json \<Rightarrow> string"
  JSON_stringify :: "json \<Rightarrow> string"
  null_read :: "string \<Rightarrow> string"
  URL_base :: "string \<Rightarrow> string option"
  invalid_url :: "string \<Rightarrow> string"

definition to_str :: "env \<Rightarrow> json \<Rightarrow> string" where
  "to_str e v = (case v of JStr s \<Rightarrow> s | _ \<Rightarrow> ToString e v)"

subsection \<open>\<^verbatim>\<open>encodeURIComponent\<close>\<close>

text \<open>
  A string is its sequence of UTF-8 bytes. \<^verbatim>\<open>encodeURIComponent\<close> keeps the unreserved
  characters \<^verbatim>\<open>A-Z a-z 0-9 - _ . ! ~ * ' ( )\<close> and writes every other byte as \<^verbatim>\<open>%XX\<close>
  with upper-case hexadecimal digits.
\<close>

definition hex_digit :: "nat \<Rightarrow> char" where
  "hex_digit n = ''0123456789ABCDEF'' ! n"

definition pct :: "char \<Rightarrow> string" where
  "pct c = [CHR ''%'', hex_digit (of_char c div 16), hex_digit (of_char c mod 16)]"

definition is_alnum :: "char \<Rightarrow> bool" where
  "is_alnum c = (let n = (of_char c :: nat) in
     (48 \<le> n \<and> n \<le> 57) \<or> (65 \<le> n \<and> n \<le> 90) \<or> (97 \<le> n \<and> n \<le> 122))"

definition uri_unreserved :: "char \<Rightarrow> bool" where
  "uri_unreserved c = (is_alnum c \<or> c \<in> set ''-_.!~*()'' \<or> c = CHR 0x27)"

definition encodeURIComponent :: "string \<Rightarrow> string" where
  "encodeURIComponent s = concat (map (\<lambda>c. if uri_unreserved c then [c] else pct c) s)"

section \<open>The token broker: \<^verbatim>\<open>getBearerToken\<close>\<close>

text \<open>
  The cache check of line 37:
  \<^verbatim>\<open>sessionData.bearerToken && sessionData.tokenExpiry && Date.now() < sessionData.tokenExpiry\<close>.
  It yields the cached token when all three conjuncts are truthy.
\<close>

definition cached :: "int \<Rightarrow> session \<Rightarrow> json option" where
  "cached now s =
     (case bearerToken s of
        None \<Rightarrow> None
      | Some tok \<Rightarrow>
         if \<not> truthy tok then None
         else (case tokenExpiry s of
                 None \<Rightarrow> None
               | Some t \<Rightarrow> if t \<noteq> 0 \<and> now < t then Some tok else None))"

text \<open>
  The settings check of line 46:
  \<^verbatim>\<open>!settings || !settings.preSharedKey || !settings.email\<close>. It yields the settings
  with the pre-shared key and the email when none of the three is falsy.
\<close>

definition credential :: "settings option \<Rightarrow> (settings \<times> string \<times> string) option" where
  "credential so =
     (case so of
        None \<Rightarrow> None
      | Some st \<Rightarrow>
         (case preSharedKey st of
            None \<Rightarrow> None
          | Some k \<Rightarrow>
             if k = [] then None
             else (case email st of
                     None \<Rightarrow> None
                   | Some m \<Rightarrow> if m = [] then None else Some (st, k, m))))"

definition default_server :: string where
  "default_server = ''http://ahp.nuts.services''"

definition server_url :: "settings \<Rightarrow> string" where
  "server_url st =
     (if serverType st = Some ''custom'' then
        (case customServerUrl st of
           None \<Rightarrow> default_server
         | Some u \<Rightarrow> if u = [] then default_server else u)
      else default_server)"

definition auth_url :: "string \<Rightarrow> string \<Rightarrow> string \<Rightarrow> string" where
  "auth_url serverUrl key mail =
     serverUrl @ ''/auth?token='' @ key @ ''&agent_id='' @ encodeURIComponent mail"

definition ConfigurationMissing :: js_exn where
  "ConfigurationMissing = Error ''Authentication settings are not configured.''"

text \<open>
  The error thrown when the auth response is not ok or carries no token:
  \<^verbatim>\<open>new Error(data.error?.message || "Failed to get bearer token.")\<close>. The read
  \<^verbatim>\<open>data.error\<close> throws a \<^verbatim>\<open>TypeError\<close> when the body is \<^verbatim>\<open>null\<close>; \<^verbatim>\<open>?.\<close> guards the
  read of \<^verbatim>\<open>message\<close> against a \<^verbatim>\<open>null\<close> or absent \<^verbatim>\<open>error\<close>.
\<close>

definition auth_failure :: "env \<Rightarrow> json \<Rightarrow> js_exn" where
  "auth_failure e d =
     (case d of
        JNull \<Rightarrow> Engine (null_read e ''error'')
      | _ \<Rightarrow>
         (case get_prop d ''error'' of
            None \<Rightarrow> Error ''Failed to get bearer token.''
          | Some JNull \<Rightarrow> Error ''Failed to get bearer token.''
          | Some err \<Rightarrow>
             (case get_prop err ''message'' of
                None \<Rightarrow> Error ''Failed to get bearer token.''
              | Some m \<Rightarrow>
                 if truthy m then Error (to_str e m)
                 else Error ''Failed to get bearer token.'')))"

definition cache_lifetime :: int where
  "cache_lifetime = 55 * 60 * 1000"

text \<open>
  What \<^verbatim>\<open>getBearerToken\<close> does with the auth response (lines 59 to 70): the token and
  the new session storage, or the exception with the storage untouched.
  \<^verbatim>\<open>!response.ok || !data.bearer_token\<close> reads \<^verbatim>\<open>data.bearer_token\<close> only when the
  response is ok, and that read throws on a \<^verbatim>\<open>null\<close> body.
\<close>

definition store_token :: "env \<Rightarrow> session \<Rightarrow> bool \<Rightarrow> json \<Rightarrow> (js_exn + json) \<times> session" where
  "store_token e s ok d =
     (if \<not> ok then (Inl (auth_failure e d), s)
      else if d = JNull then (Inl (Engine (null_read e ''bearer_token'')), s)
      else (case get_prop d ''bearer_token'' of
              None \<Rightarrow> (Inl (auth_failure e d), s)
            | Some tok \<Rightarrow>
               if \<not> truthy tok then (Inl (auth_failure e d), s)
               else
                 let expiryTime = now_store e + cache_lifetime in
                 (Inr tok, s\<lparr>bearerToken := Some tok, tokenExpiry := Some expiryTime\<rparr>)))"

text \<open>
  \<^verbatim>\<open>getBearerToken\<close> returns the token or the exception, the session storage after the
  call, and the network calls it made, in order.
\<close>

definition getBearerToken :: "env \<Rightarrow> session \<Rightarrow> (js_exn + json) \<times> session \<times> net_call list" where
  "getBearerToken e s =
     (case cached (now_check e) s of
        Some tok \<Rightarrow> (Inr tok, s, [])
      | None \<Rightarrow>
         (case credential (ahpSettings e) of
            None \<Rightarrow> (Inl ConfigurationMissing, s, [])
          | Some (st, key, mail) \<Rightarrow>
             let authUrl = auth_url (server_url st) key mail in
             (case auth_fetch e authUrl of
                Rejected m \<Rightarrow> (Inl (Engine m), s, [AuthFetch authUrl])
              | Response ok b \<Rightarrow>
                 (case b of
                    NotJson m \<Rightarrow> (Inl (Engine m), s, [AuthFetch authUrl])
                  | Json d \<Rightarrow>
                     (case store_token e s ok d of
                        (r, s') \<Rightarrow> (r, s', [AuthFetch authUrl]))))))"

section \<open>URLs: \<^verbatim>\<open>new URL\<close>, \<^verbatim>\<open>searchParams.set\<close>, \<^verbatim>\<open>toString\<close>\<close>

text \<open>
  The listener builds the tool URL with the \<^verbatim>\<open>URL\<close> class of the runtime. The model
  follows the URL standard for what concerns the query: the input loses its leading and
  trailing C0 control or space characters and every tab and newline, the fragment starts
  at the first \<^verbatim>\<open>#\<close>, the query at the first \<^verbatim>\<open>?\<close> before it. The part before the query
  (scheme, host, path) is parsed by \<open>URL_base\<close> of the environment, which fails on an
  invalid URL. The parser's percent-encoding of the query is left out: it touches none
  of \<^verbatim>\<open>& = + %\<close>, and \<^verbatim>\<open>searchParams\<close> decodes what it would encode.
\<close>

definition is_hex :: "char \<Rightarrow> bool" where
  "is_hex c = (let n = (of_char c :: nat) in
     (48 \<le> n \<and> n \<le> 57) \<or> (65 \<le> n \<and> n \<le> 70) \<or> (97 \<le> n \<and> n \<le> 102))"

definition hex_val :: "char \<Rightarrow> nat" where
  "hex_val c = (let n = (of_char c :: nat) in
     if n \<le> 57 then n - 48 else if n \<le> 70 then n - 55 else n - 87)"

fun percent_decode :: "string \<Rightarrow> string" where
  "percent_decode (c # h1 # h2 # r) =
     (if c = CHR ''%'' \<and> is_hex h1 \<and> is_hex h2
      then char_of (hex_val h1 * 16 + hex_val h2) # percent_decode r
      else c # percent_decode (h1 # h2 # r))"
| "percent_decode (c # r) = c # percent_decode r"
| "percent_decode [] = []"

text \<open>Splitting a string at every occurrence of a character, and at the first one.\<close>

fun split_on :: "char \<Rightarrow> string \<Rightarrow> string list" where
  "split_on d [] = [[]]"
| "split_on d (x # xs) =
     (if x = d then [] # split_on d xs
      else (case split_on d xs of
              [] \<Rightarrow> [[x]]
            | y # ys \<Rightarrow> (x # y) # ys))"

definition split_first :: "char \<Rightarrow> string \<Rightarrow> string \<times> string option" where
  "split_first d s =
     (if d \<in> set s then (takeWhile (\<lambda>c. c \<noteq> d) s, Some (tl (dropWhile (\<lambda>c. c \<noteq> d) s)))
      else (s, None))"

text \<open>
  The \<^verbatim>\<open>application/x-www-form-urlencoded\<close> parser and serializer of the URL standard,
  behind \<^verbatim>\<open>searchParams\<close>. A string being its UTF-8 bytes, the parser keeps the bytes that
  percent-decoding yields. Where these bytes are not well-formed UTF-8 the runtime puts
  U+FFFD in their place, which the model does not; the two agree on every name and value
  that is well-formed UTF-8, and on which tuples are named \<^verbatim>\<open>bearer_token\<close>.
\<close>

definition plus_to_space :: "string \<Rightarrow> string" where
  "plus_to_space s = map (\<lambda>c. if c = CHR ''+'' then CHR '' '' else c) s"

definition parse_pair :: "string \<Rightarrow> string \<times> string" where
  "parse_pair s =
     (case split_first CHR ''='' s of
        (n, None) \<Rightarrow> (percent_decode (plus_to_space n), [])
      | (n, Some v) \<Rightarrow> (percent_decode (plus_to_space n), percent_decode (plus_to_space v)))"

definition urlencoded_parse :: "string \<Rightarrow> (string \<times> string) list" where
  "urlencoded_parse q = map parse_pair (filter (\<lambda>s. s \<noteq> []) (split_on CHR ''&'' q))"

definition form_safe :: "char \<Rightarrow> bool" where
  "form_safe c = (is_alnum c \<or> c \<in> set ''*-._'')"

definition byte_serialize :: "string \<Rightarrow> string" where
  "byte_serialize s =
     concat (map (\<lambda>c. if c = CHR '' '' then ''+'' else if form_safe c then [c] else pct c) s)"

fun join_amp :: "string list \<Rightarrow> string" where
  "join_amp [] = []"
| "join_amp [x] = x"
| "join_amp (x # y # ys) = x @ ''&'' @ join_amp (y # ys)"

definition urlencoded_serialize :: "(string \<times> string) list \<Rightarrow> string" where
  "urlencoded_serialize l =
     join_amp (map (\<lambda>(n, v). byte_serialize n @ ''='' @ byte_serialize v) l)"

text \<open>The serialization of one tuple, as \<open>urlencoded_serialize\<close> writes it.\<close>

definition ser_pair :: "string \<times> string \<Rightarrow> string" where
  "ser_pair p = byte_serialize (fst p) @ ''='' @ byte_serialize (snd p)"

text \<open>
  \<^verbatim>\<open>URLSearchParams.set(name, value)\<close>: the first tuple named \<open>name\<close> gets the value and
  the other tuples of that name are removed; without such a tuple one is appended.
\<close>

fun set_param :: "string \<Rightarrow> string \<Rightarrow> (string \<times> string) list \<Rightarrow> (string \<times> string) list" where
  "set_param n v [] = [(n, v)]"
| "set_param n v ((k, w) # l) =
     (if k = n then (n, v) # filter (\<lambda>(k', _). k' \<noteq> n) l
      else (k, w) # set_param n v l)"

text \<open>The tuples of a parameter list with a given name, and the others.\<close>

definition named :: "string \<Rightarrow> (string \<times> string) list \<Rightarrow> (string \<times> string) list" where
  "named n l = filter (\<lambda>(k, _). k = n) l"

definition not_named :: "string \<Rightarrow> (string \<times> string) list \<Rightarrow> (string \<times> string) list" where
  "not_named n l = filter (\<lambda>(k, _). k \<noteq> n) l"

record url =
  url_base :: string
  url_query :: "string option"
  url_fragment :: "string option"

definition c0_or_space :: "char \<Rightarrow> bool" where
  "c0_or_space c = ((of_char c :: nat) \<le> 32)"

definition tab_or_newline :: "char \<Rightarrow> bool" where
  "tab_or_newline c = ((of_char c :: nat) \<in> {9, 10, 13})"

definition url_trim :: "string \<Rightarrow> string" where
  "url_trim s =
     filter (\<lambda>c. \<not> tab_or_newline c)
       (rev (dropWhile c0_or_space (rev (dropWhile c0_or_space s))))"

definition fragment_plain :: "char \<Rightarrow> bool" where
  "fragment_plain c = (let n = (of_char c :: nat) in
     32 < n \<and> n < 127 \<and> c \<notin> set ''\"<>`'')"

definition fragment_encode :: "string \<Rightarrow> string" where
  "fragment_encode s = concat (map (\<lambda>c. if fragment_plain c then [c] else pct c) s)"

definition URL_new :: "env \<Rightarrow> string \<Rightarrow> url option" where
  "URL_new e input =
     (case split_first CHR ''#'' (url_trim input) of
        (pre, frag) \<Rightarrow>
          (case split_first CHR ''?'' pre of
             (b, q) \<Rightarrow>
               (case URL_base e b of
                  None \<Rightarrow> None
                | Some b' \<Rightarrow>
                   Some \<lparr>url_base = b', url_query = q,
                         url_fragment = map_option fragment_encode frag\<rparr>)))"

definition searchParams :: "url \<Rightarrow> (string \<times> string) list" where
  "searchParams u = (case url_query u of None \<Rightarrow> [] | Some q \<Rightarrow> urlencoded_parse q)"

definition searchParams_set :: "string \<Rightarrow> string \<Rightarrow> url \<Rightarrow> url" where
  "searchParams_set n v u =
     u\<lparr>url_query := Some (urlencoded_serialize (set_param n v (searchParams u)))\<rparr>"

definition url_toString :: "url \<Rightarrow> string" where
  "url_toString u =
     url_base u
       @ (case url_query u of None \<Rightarrow> [] | Some q \<Rightarrow> ''?'' @ q)
       @ (case url_fragment u of None \<Rightarrow> [] | Some f \<Rightarrow> ''#'' @ f)"

section \<open>The execution pipeline: the message listener of the background script\<close>

record request =
  action :: string
  url :: string

record reply =
  success :: bool
  data :: "json option"
  error :: "string option"

text \<open>
  The last \<^verbatim>\<open>then\<close> of the chain (lines 93 to 98): a truthy \<^verbatim>\<open>result.error\<close> is thrown
  as \<^verbatim>\<open>new Error(result.error.message || JSON.stringify(result.error))\<close>; reading
  \<^verbatim>\<open>error\<close> of a \<^verbatim>\<open>null\<close> body throws a \<^verbatim>\<open>TypeError\<close>.
\<close>

definition tool_result :: "env \<Rightarrow> json \<Rightarrow> js_exn + json" where
  "tool_result e r =
     (if r = JNull then Inl (Engine (null_read e ''error''))
      else (case get_prop r ''error'' of
              None \<Rightarrow> Inr r
            | Some err \<Rightarrow>
               if \<not> truthy err then Inr r
               else (case get_prop err ''message'' of
                       None \<Rightarrow> Inl (Error (JSON_stringify e err))
                     | Some m \<Rightarrow>
                        if truthy m then Inl (Error (to_str e m))
                        else Inl (Error (JSON_stringify e err)))))"

text \<open>
  The promise chain of lines 80 to 97: the token, the URL with the token set, the fetch,
  the body. Every rejection skips the remaining \<^verbatim>\<open>then\<close> steps.
\<close>

definition tool_url :: "env \<Rightarrow> json \<Rightarrow> url \<Rightarrow> string" where
  "tool_url e tok u = url_toString (searchParams_set ''bearer_token'' (to_str e tok) u)"

definition executeAHP :: "env \<Rightarrow> session \<Rightarrow> string \<Rightarrow> (js_exn + json) \<times> session \<times> net_call list" where
  "executeAHP e s target =
     (case getBearerToken e s of
        (Inl x, s', calls) \<Rightarrow> (Inl x, s', calls)
      | (Inr tok, s', calls) \<Rightarrow>
         (case URL_new e target of
            None \<Rightarrow> (Inl (Engine (invalid_url e target)), s', calls)
          | Some u \<Rightarrow>
             let urlWithToken = tool_url e tok u in
             (case tool_fetch e urlWithToken of
                Rejected m \<Rightarrow> (Inl (Engine m), s', calls @ [ToolFetch urlWithToken])
              | Response ok b \<Rightarrow>
                 (case b of
                    NotJson m \<Rightarrow> (Inl (Engine m), s', calls @ [ToolFetch urlWithToken])
                  | Json r \<Rightarrow> (tool_result e r, s', calls @ [ToolFetch urlWithToken])))))"

text \<open>
  The listener: the replies passed to \<^verbatim>\<open>sendResponse\<close>, the session storage and the
  network calls, and whether the listener returned \<^verbatim>\<open>true\<close> to keep the channel open.
  A request whose action is not \<^verbatim>\<open>executeAHP\<close> falls through the \<^verbatim>\<open>if\<close>.
\<close>

definition onMessage :: "env \<Rightarrow> session \<Rightarrow> request \<Rightarrow> reply list \<times> session \<times> net_call list \<times> bool" where
  "onMessage e s rq =
     (if action rq = ''executeAHP'' then
        (case executeAHP e s (url rq) of
           (Inr r, s', calls) \<Rightarrow>
             ([\<lparr>success = True, data = Some r, error = None\<rparr>], s', calls, True)
         | (Inl x, s', calls) \<Rightarrow>
             ([\<lparr>success = False, data = None, error = Some (message x)\<rparr>], s', calls, True))
      else ([], s, [], False))"

text \<open>How often a run fetched the auth endpoint, and the tool server.\<close>

definition auth_count :: "net_call list \<Rightarrow> nat" where
  "auth_count calls = length (filter (\<lambda>c. case c of AuthFetch _ \<Rightarrow> True | ToolFetch _ \<Rightarrow> False) calls)"

definition tool_count :: "net_call list \<Rightarrow> nat" where
  "tool_count calls = length (filter (\<lambda>c. case c of AuthFetch _ \<Rightarrow> False | ToolFetch _ \<Rightarrow> True) calls)"

section \<open>The result injector of the content script\<close>












section \<open>The detection engine of the content scripts\<close>

subsection \<open>The URL pattern\<close>

text \<open>
  \<^verbatim>\<open>updateRegex\<close> escapes the server URL with
  \<^verbatim>\<open>serverUrl.replace(/[.*+?^${}()|[\\]/g, '\\$&')\<close> and builds the global regular
  expression \<^verbatim>\<open>escapedUrl/[^\s\n\)]+\<close>. The escaped URL is a pattern of plain and
  backslash-escaped characters, each of which matches one character.
\<close>

definition backslash :: char where
  "backslash = CHR 0x5C"

definition escape_char :: "char \<Rightarrow> string" where
  "escape_char c = (if c \<in> set ''.*+?^${}()|['' \<or> c = backslash then [backslash, c] else [c])"

definition escapedUrl :: "string \<Rightarrow> string" where
  "escapedUrl serverUrl = concat (map escape_char serverUrl)"

fun pattern_literal :: "string \<Rightarrow> string" where
  "pattern_literal (b # c # r) =
     (if b = backslash then c # pattern_literal r else b # pattern_literal (c # r))"
| "pattern_literal r = r"











subsection \<open>Code elements and the two scans\<close>
















section \<open>The auth request as the auth endpoint receives it\<close>

text \<open>
  Modelled from the spec: the auth endpoint of the tool server, which is not among the
  sources; the specification gives its interface as
  \<^verbatim>\<open>GET {serverBaseUrl}/auth?token={preSharedKey}&agent_id={identity}\<close>. The endpoint reads
  its parameters from the query of the request. The query that \<^verbatim>\<open>fetch\<close> sends is the one
  the URL parser finds in the URL string (the fragment is not sent), and its parameters
  are read the \<^verbatim>\<open>application/x-www-form-urlencoded\<close> way. \<open>request_query u\<close> is the
  query sent for the URL string \<open>u\<close>; the URL parser's percent-encoding of the query is
  left out, as the parameter parsing undoes it.
\<close>

definition request_query :: "string \<Rightarrow> string option" where
  "request_query u =
     (case split_first CHR ''#'' (url_trim u) of
        (pre, frag) \<Rightarrow> snd (split_first CHR ''?'' pre))"

text \<open>
  Modelled from the spec: the parameters as the auth endpoint reads them (the endpoint is
  not among the sources). \<open>received name u\<close> is the list of the values that reach the
  endpoint under the parameter \<open>name\<close>, in the order of the query; an endpoint that takes
  the first or the last value of a repeated parameter takes one of them.
\<close>

definition received :: "string \<Rightarrow> string \<Rightarrow> string list" where
  "received name u =
     (case request_query u of
        None \<Rightarrow> []
      | Some q \<Rightarrow> map snd (named name (urlencoded_parse q)))"

text \<open>
  A string has an escape when a \<^verbatim>\<open>%\<close> in it is followed by two hexadecimal digits. A key
  is intact when it has no escape and none of \<^verbatim>\<open>&\<close>, \<^verbatim>\<open>#\<close>, \<^verbatim>\<open>+\<close>, tab, line feed and
  carriage return.
\<close>

fun has_escape :: "string \<Rightarrow> bool" where
  "has_escape (c # h1 # h2 # r) =
     ((c = CHR ''%'' \<and> is_hex h1 \<and> is_hex h2) \<or> has_escape (h1 # h2 # r))"
| "has_escape r = False"

definition key_intact :: "string \<Rightarrow> bool" where
  "key_intact k =
     (list_all (\<lambda>c. c \<notin> set ''&#+'' \<and> \<not> tab_or_newline c) k \<and> \<not> has_escape k)"

text \<open>
  What follows \<^verbatim>\<open>token=\<close> in the query of the auth request: the key without its tabs and
  newlines, cut at its first \<^verbatim>\<open>#\<close> if it has one, and otherwise followed by the
  \<^verbatim>\<open>agent_id\<close> parameter.
\<close>

definition key_part :: "string \<Rightarrow> string \<Rightarrow> string" where
  "key_part key mail =
     (let fk = filter (\<lambda>c. \<not> tab_or_newline c) key in
      if CHR ''#'' \<in> set key then takeWhile (\<lambda>c. c \<noteq> CHR ''#'') fk
      else fk @ ''&agent_id='' @ encodeURIComponent mail)"

section \<open>Scenarios\<close>

text \<open>Concrete settings, environments, sessions and requests: the scenarios of the specification.\<close>

definition settings_example :: settings where
  "settings_example =
     \<lparr>serverType = Some ''default'', customServerUrl = None,
      email = Some ''a@b.com'', preSharedKey = Some ''k1''\<rparr>"

definition env_example :: env where
  "env_example =
     \<lparr>now_check = 1000, now_store = 2000, ahpSettings = Some settings_example,
      auth_fetch = (\<lambda>u. Response True (Json (JObj [(''bearer_token'', JStr ''T1'')]))),
      tool_fetch = (\<lambda>u. Response True
         (Json (JObj [(''error'', JObj [(''message'', JStr ''insufficient funds'')])]))),
      ToString = (\<lambda>v. ''[object Object]''),
      JSON_stringify = (\<lambda>v. ''{}''),
      null_read = (\<lambda>k. ''Cannot read properties of null''),
      URL_base = Some,
      invalid_url = (\<lambda>u. ''Invalid URL'')\<rparr>"

definition env_unconfigured :: env where
  "env_unconfigured = env_example\<lparr>ahpSettings := None\<rparr>"

text \<open>An auth endpoint that declares a lifetime of 600 seconds with the token.\<close>

definition env_short_lived :: env where
  "env_short_lived =
     env_example\<lparr>auth_fetch := (\<lambda>u. Response True
        (Json (JObj [(''bearer_token'', JStr ''T1''), (''expires_in'', JNum 600)])))\<rparr>"

definition session_empty :: session where
  "session_empty = \<lparr>bearerToken = None, tokenExpiry = None\<rparr>"

definition session_T1 :: session where
  "session_T1 = \<lparr>bearerToken = Some (JStr ''T1''), tokenExpiry = Some 3302000\<rparr>"

definition request_echo :: request where
  "request_echo = \<lparr>action = ''executeAHP'', url = ''http://server/generate_qr_code?data=hello''\<rparr>"

text \<open>A request whose URL already carries two \<^verbatim>\<open>bearer_token\<close> parameters.\<close>

definition request_spoof :: request where
  "request_spoof =
     \<lparr>action = ''executeAHP'',
      url = ''http://server/echo?bearer_token=EVIL&text=hi&bearer_token=OLD''\<rparr>"





section \<open>Properties of the token broker and of the listener\<close>

lemma cached_hit:
  "bearerToken s = Some tok \<Longrightarrow> truthy tok \<Longrightarrow> tokenExpiry s = Some t \<Longrightarrow> 0 \<le> now \<Longrightarrow> now < t
   \<Longrightarrow> cached now s = Some tok"
  by (simp add: cached_def)

lemma getBearerToken_cached:
  "cached (now_check e) s = Some tok \<Longrightarrow> getBearerToken e s = (Inr tok, s, [])"
  by (simp add: getBearerToken_def)

lemma store_token_cases:
  "store_token e s ok d = (r, s') \<Longrightarrow>
     (s' = s \<and> (\<exists>x. r = Inl x)) \<or>
     (\<exists>tok. r = Inr tok \<and> truthy tok \<and>
        s' = s\<lparr>bearerToken := Some tok, tokenExpiry := Some (now_store e + cache_lifetime)\<rparr>)"
  by (auto simp: store_token_def Let_def split: if_splits option.splits)

lemma getBearerToken_calls:
  "getBearerToken e s = (r, s', calls) \<Longrightarrow> tool_count calls = 0 \<and> auth_count calls \<le> 1"
  by (auto simp: getBearerToken_def tool_count_def auth_count_def Let_def
      split: option.splits fetch_result.splits body.splits prod.splits)

lemma getBearerToken_session:
  "getBearerToken e s = (r, s', calls) \<Longrightarrow>
     s' = s \<or> (\<exists>tok. r = Inr tok \<and> truthy tok \<and> calls \<noteq> [] \<and>
        s' = s\<lparr>bearerToken := Some tok, tokenExpiry := Some (now_store e + cache_lifetime)\<rparr>)"
  by (auto simp: getBearerToken_def Let_def dest!: store_token_cases
      split: option.splits fetch_result.splits body.splits prod.splits)

lemma getBearerToken_fetched:
  "getBearerToken e s = (Inr tok, s', calls) \<Longrightarrow> calls \<noteq> [] \<Longrightarrow>
     s' = s\<lparr>bearerToken := Some tok, tokenExpiry := Some (now_store e + cache_lifetime)\<rparr>"
  by (auto simp: getBearerToken_def Let_def dest!: store_token_cases
      split: option.splits fetch_result.splits body.splits prod.splits)

lemma getBearerToken_unconfigured:
  "credential (ahpSettings e) = None \<Longrightarrow>
     getBearerToken e s =
       (case cached (now_check e) s of
          Some tok \<Rightarrow> (Inr tok, s, [])
        | None \<Rightarrow> (Inl ConfigurationMissing, s, []))"
  by (simp add: getBearerToken_def split: option.splits)

lemma credential_None_iff:
  "credential so = None \<longleftrightarrow>
     (so = None \<or> (\<exists>st. so = Some st \<and>
        (preSharedKey st = None \<or> preSharedKey st = Some [] \<or> email st = None \<or> email st = Some [])))"
  by (auto simp: credential_def split: option.splits)

lemma executeAHP_cached:
  assumes "cached (now_check e) s = Some tok"
  shows "\<exists>r calls. executeAHP e s target = (r, s, calls) \<and> auth_count calls = 0"
  using assms
  by (auto simp: executeAHP_def getBearerToken_cached auth_count_def Let_def
      split: option.splits fetch_result.splits body.splits)

lemma onMessage_cached:
  assumes "cached (now_check e) s = Some tok"
  shows "\<exists>rs calls k. onMessage e s rq = (rs, s, calls, k) \<and> auth_count calls = 0"
proof (cases "action rq = ''executeAHP''")
  case True
  from executeAHP_cached [OF assms, of "url rq"] obtain r calls
    where "executeAHP e s (url rq) = (r, s, calls)" "auth_count calls = 0" by blast
  with True show ?thesis by (cases r) (auto simp: onMessage_def)
next
  case False
  then show ?thesis by (auto simp: onMessage_def auth_count_def)
qed

text \<open>
  Claim C2. A call of \<^verbatim>\<open>getBearerToken\<close> that finds a cached token whose expiry has not
  passed returns the cached value and makes no network call; executing the same
  request twice while the token stays valid performs the authentication fetch zero
  times in either execution, and leaves the cache as it was. A cached token is a truthy
  \<^verbatim>\<open>bearerToken\<close>; the clock counts milliseconds since the epoch and is not negative.
\<close>

theorem cached_token_no_network:
  assumes "bearerToken s = Some tok" and "truthy tok" and "tokenExpiry s = Some t"
    and "0 \<le> now_check e1" and "now_check e1 < t"
    and "0 \<le> now_check e2" and "now_check e2 < t"
  shows "getBearerToken e1 s = (Inr tok, s, []) \<and>
         (\<exists>rs1 calls1 k1 rs2 calls2 k2.
            onMessage e1 s rq = (rs1, s, calls1, k1) \<and> auth_count calls1 = 0 \<and>
            onMessage e2 s rq = (rs2, s, calls2, k2) \<and> auth_count calls2 = 0)"
proof -
  have c1: "cached (now_check e1) s = Some tok" and c2: "cached (now_check e2) s = Some tok"
    using assms by (simp_all add: cached_hit)
  from onMessage_cached [OF c1, of rq] onMessage_cached [OF c2, of rq] getBearerToken_cached [OF c1]
  show ?thesis by blast
qed

theorem cached_token_no_network_witness:
  "getBearerToken env_example session_T1 = (Inr (JStr ''T1''), session_T1, []) \<and>
   (\<exists>rs1 calls1 k1 rs2 calls2 k2.
      onMessage env_example session_T1 request_echo = (rs1, session_T1, calls1, k1) \<and> auth_count calls1 = 0 \<and>
      onMessage (env_example\<lparr>now_check := 5000\<rparr>) session_T1 request_echo = (rs2, session_T1, calls2, k2) \<and> auth_count calls2 = 0)"
  by (rule cached_token_no_network [where t = 3302000])
     (simp_all add: session_T1_def env_example_def)

text \<open>
  Claim C3, as stated, fails: with no settings stored and a cached token that is still
  valid, \<^verbatim>\<open>getBearerToken\<close> returns the cached token instead of failing.
\<close>

theorem unconfigured_counterexample:
  "ahpSettings env_unconfigured = None \<and>
   getBearerToken env_unconfigured session_T1 = (Inr (JStr ''T1''), session_T1, [])"
  by (simp add: env_unconfigured_def env_example_def session_T1_def getBearerToken_def cached_def)

text \<open>
  Claim C3, amended. When the stored settings are absent or lack the pre-shared key or
  the email, \<^verbatim>\<open>getBearerToken\<close> makes no network call; it fails with
  \<open>ConfigurationMissing\<close> unless a cached token is still valid, in which case it returns
  the cached token.
\<close>

theorem unconfigured_no_network:
  assumes "ahpSettings e = None \<or>
           (\<exists>st. ahpSettings e = Some st \<and>
              (preSharedKey st = None \<or> preSharedKey st = Some [] \<or>
               email st = None \<or> email st = Some []))"
  shows "snd (snd (getBearerToken e s)) = [] \<and>
         (cached (now_check e) s = None \<longrightarrow>
            getBearerToken e s = (Inl ConfigurationMissing, s, [])) \<and>
         (\<forall>tok. cached (now_check e) s = Some tok \<longrightarrow>
            getBearerToken e s = (Inr tok, s, []))"
proof -
  from assms have "credential (ahpSettings e) = None"
    by (simp only: credential_None_iff)
  then show ?thesis
    by (auto simp: getBearerToken_unconfigured split: option.splits)
qed

theorem unconfigured_no_network_witness:
  "ahpSettings env_unconfigured = None \<and>
   getBearerToken env_unconfigured session_empty = (Inl ConfigurationMissing, session_empty, [])"
  using unconfigured_no_network [of env_unconfigured session_empty]
  by (simp add: env_unconfigured_def env_example_def session_empty_def cached_def)

text \<open>
  Claim C4, as stated, fails: \<^verbatim>\<open>getBearerToken\<close> reads nothing but \<^verbatim>\<open>bearer_token\<close> from
  the auth response. When the server declares a lifetime of 600 seconds, the cached
  expiry is still 55 minutes after the time of storing, which is not before the end of
  the declared lifetime.
\<close>

theorem short_lifetime_counterexample:
  "auth_fetch env_short_lived ''http://ahp.nuts.services/auth?token=k1&agent_id=a%40b.com''
     = Response True (Json (JObj [(''bearer_token'', JStr ''T1''), (''expires_in'', JNum 600)])) \<and>
   getBearerToken env_short_lived session_empty =
     (Inr (JStr ''T1''),
      \<lparr>bearerToken = Some (JStr ''T1''), tokenExpiry = Some (now_store env_short_lived + 3300000)\<rparr>,
      [AuthFetch ''http://ahp.nuts.services/auth?token=k1&agent_id=a%40b.com'']) \<and>
   \<not> (now_store env_short_lived + 3300000 < now_store env_short_lived + 600 * 1000)"
  by (simp add: getBearerToken_def env_short_lived_def env_example_def session_empty_def
      settings_example_def cached_def credential_def auth_url_def server_url_def
      default_server_def encodeURIComponent_def uri_unreserved_def is_alnum_def pct_def
      hex_digit_def store_token_def cache_lifetime_def Let_def)

lemma getBearerToken_authenticated:
  assumes "cached (now_check e) s = None"
    and "credential (ahpSettings e) = Some (st, key, mail)"
    and "auth_fetch e (auth_url (server_url st) key mail) = Response True (Json d)"
    and "get_prop d ''bearer_token'' = Some tok" and "truthy tok"
  shows "getBearerToken e s =
           (Inr tok, s\<lparr>bearerToken := Some tok, tokenExpiry := Some (now_store e + 3300000)\<rparr>,
            [AuthFetch (auth_url (server_url st) key mail)])"
proof -
  from assms(4) have "d \<noteq> JNull" by auto
  with assms show ?thesis
    by (simp add: getBearerToken_def store_token_def cache_lifetime_def Let_def)
qed

text \<open>
  Claim C4, amended. Every call of \<^verbatim>\<open>getBearerToken\<close> either leaves the session storage as
  it was or replaces token and expiry together. After a successful authentication the
  stored token is the one returned and the stored expiry is the time of storing plus a
  fixed 55 minutes (3300000 ms), whatever the auth response declares besides the token.
  Hence the expiry lies strictly before the end of a lifetime counted from the time of
  storing exactly when that lifetime is longer than 55 minutes: for the nominal 3600
  seconds it is strictly less than \<open>now + 3600000\<close>, with a margin of 300000 ms.
\<close>

theorem expiry_fixed_atomic:
  assumes "getBearerToken e s = (r, s', calls)"
  shows "(s' = s \<or>
          (\<exists>tok. r = Inr tok \<and>
             s' = s\<lparr>bearerToken := Some tok, tokenExpiry := Some (now_store e + 3300000)\<rparr>)) \<and>
         (\<forall>tok. r = Inr tok \<and> calls \<noteq> [] \<longrightarrow>
            bearerToken s' = Some tok \<and>
            tokenExpiry s' = Some (now_store e + 55 * 60 * 1000) \<and>
            (\<forall>t lifetime. tokenExpiry s' = Some t \<longrightarrow>
               (t < now_store e + lifetime \<longleftrightarrow> 55 * 60 * 1000 < lifetime)) \<and>
            (\<forall>t. tokenExpiry s' = Some t \<longrightarrow>
               t < now_store e + 3600000 \<and> t + 300000 = now_store e + 3600000)) \<and>
         (\<forall>st key mail d tok.
            cached (now_check e) s = None \<and>
            credential (ahpSettings e) = Some (st, key, mail) \<and>
            auth_fetch e (auth_url (server_url st) key mail) = Response True (Json d) \<and>
            get_prop d ''bearer_token'' = Some tok \<and> truthy tok \<longrightarrow>
            r = Inr tok \<and>
            s' = s\<lparr>bearerToken := Some tok, tokenExpiry := Some (now_store e + 3300000)\<rparr>)"
proof -
  have l: "cache_lifetime = 3300000" by (simp add: cache_lifetime_def)
  from getBearerToken_session [OF assms] have a: "s' = s \<or>
          (\<exists>tok. r = Inr tok \<and>
             s' = s\<lparr>bearerToken := Some tok, tokenExpiry := Some (now_store e + 3300000)\<rparr>)"
    unfolding l by blast
  have b: "bearerToken s' = Some tok \<and>
            tokenExpiry s' = Some (now_store e + 55 * 60 * 1000) \<and>
            (\<forall>t lifetime. tokenExpiry s' = Some t \<longrightarrow>
               (t < now_store e + lifetime \<longleftrightarrow> 55 * 60 * 1000 < lifetime)) \<and>
            (\<forall>t. tokenExpiry s' = Some t \<longrightarrow>
               t < now_store e + 3600000 \<and> t + 300000 = now_store e + 3600000)"
    if "r = Inr tok" "calls \<noteq> []" for tok
    using getBearerToken_fetched [of e s tok s' calls] assms that unfolding l by auto
  have c: "r = Inr tok \<and>
            s' = s\<lparr>bearerToken := Some tok, tokenExpiry := Some (now_store e + 3300000)\<rparr>"
    if "cached (now_check e) s = None" "credential (ahpSettings e) = Some (st, key, mail)"
      "auth_fetch e (auth_url (server_url st) key mail) = Response True (Json d)"
      "get_prop d ''bearer_token'' = Some tok" "truthy tok" for st key mail d tok
    using getBearerToken_authenticated [OF that] assms by simp
  from a b c show ?thesis by blast
qed

theorem expiry_fixed_atomic_witness:
  "getBearerToken env_example session_empty =
     (Inr (JStr ''T1''), \<lparr>bearerToken = Some (JStr ''T1''), tokenExpiry = Some 3302000\<rparr>,
      [AuthFetch ''http://ahp.nuts.services/auth?token=k1&agent_id=a%40b.com'']) \<and>
   now_store env_example = 2000 \<and>
   (3302000::int) < now_store env_example + 3600000 \<and>
   \<not> ((3302000::int) < now_store env_example + 3300000)"
proof -
  have g: "getBearerToken env_example session_empty =
     (Inr (JStr ''T1''), \<lparr>bearerToken = Some (JStr ''T1''), tokenExpiry = Some 3302000\<rparr>,
      [AuthFetch ''http://ahp.nuts.services/auth?token=k1&agent_id=a%40b.com''])"
    by (simp add: getBearerToken_def env_example_def session_empty_def settings_example_def
        cached_def credential_def auth_url_def server_url_def default_server_def
        encodeURIComponent_def uri_unreserved_def is_alnum_def pct_def hex_digit_def
        store_token_def cache_lifetime_def Let_def)
  have n: "now_store env_example = 2000" by (simp add: env_example_def)
  from expiry_fixed_atomic [OF g] show ?thesis using g n by simp
qed

text \<open>
  Claim C5. When token acquisition fails for an \<^verbatim>\<open>executeAHP\<close> request, the listener
  sends the single reply \<^verbatim>\<open>{success: false, error: message}\<close> and no fetch of the tool
  server is made.
\<close>

theorem token_failure_no_tool_call:
  assumes "action rq = ''executeAHP''"
    and "getBearerToken e s = (Inl x, s', calls)"
  shows "onMessage e s rq =
           ([\<lparr>success = False, data = None, error = Some (message x)\<rparr>], s', calls, True) \<and>
         tool_count calls = 0"
  using assms getBearerToken_calls [of e s "Inl x" s' calls]
  by (simp add: onMessage_def executeAHP_def)

theorem token_failure_no_tool_call_witness:
  "onMessage env_unconfigured session_empty request_echo =
     ([\<lparr>success = False, data = None,
        error = Some ''Authentication settings are not configured.''\<rparr>],
      session_empty, [], True) \<and> tool_count [] = 0"
proof -
  have g: "getBearerToken env_unconfigured session_empty =
      (Inl (Error ''Authentication settings are not configured.''), session_empty, [])"
    by (simp add: getBearerToken_def env_unconfigured_def env_example_def session_empty_def
        cached_def credential_def ConfigurationMissing_def)
  have a: "action request_echo = ''executeAHP''" by (simp add: request_echo_def)
  from token_failure_no_tool_call [OF a g] show ?thesis by simp
qed

text \<open>
  Claim C1, as stated, fails: a request with the action \<^verbatim>\<open>executeCall\<close> falls through
  the listener, which sends no reply and does not keep the channel open.
\<close>

theorem executeCall_counterexample:
  "onMessage env_example session_empty
     \<lparr>action = ''executeCall'', url = ''http://ahp.nuts.services/echo?text=hi''\<rparr>
   = ([], session_empty, [], False)"
  by (simp add: onMessage_def)

text \<open>
  Claim C1, amended. A request with the action \<^verbatim>\<open>executeAHP\<close> gets exactly one reply on
  every path, success or failure (each awaited promise being settled): a success
  reply carries data and no error, a failure reply an error and no data. A request
  with any other action gets no reply from the listener.
\<close>

theorem one_reply_per_executeAHP:
  "(action rq = ''executeAHP'' \<longrightarrow>
      (\<exists>r s' calls. onMessage e s rq = ([r], s', calls, True) \<and>
         (if success r then data r \<noteq> None \<and> error r = None
          else data r = None \<and> error r \<noteq> None))) \<and>
   (action rq \<noteq> ''executeAHP'' \<longrightarrow> onMessage e s rq = ([], s, [], False))"
  by (auto simp: onMessage_def split: prod.splits sum.splits)

theorem one_reply_per_executeAHP_witness:
  "action request_echo = ''executeAHP'' \<and>
   (\<exists>r s' calls. onMessage env_unconfigured session_empty request_echo = ([r], s', calls, True)) \<and>
   onMessage env_unconfigured session_empty (request_echo\<lparr>action := ''executeCall''\<rparr>)
     = ([], session_empty, [], False)"
  using one_reply_per_executeAHP [of request_echo env_unconfigured session_empty]
    one_reply_per_executeAHP [of "request_echo\<lparr>action := ''executeCall''\<rparr>" env_unconfigured session_empty]
  by (auto simp: request_echo_def)

lemma onMessage_tool_result:
  assumes "action rq = ''executeAHP''"
    and "getBearerToken e s = (Inr tok, s', calls)"
    and "URL_new e (url rq) = Some u"
    and "tool_fetch e (tool_url e tok u) = Response ok (Json r)"
  shows "onMessage e s rq =
     (case tool_result e r of
        Inr v \<Rightarrow> ([\<lparr>success = True, data = Some v, error = None\<rparr>], s',
                  calls @ [ToolFetch (tool_url e tok u)], True)
      | Inl x \<Rightarrow> ([\<lparr>success = False, data = None, error = Some (message x)\<rparr>], s',
                  calls @ [ToolFetch (tool_url e tok u)], True))"
  using assms by (simp add: onMessage_def executeAHP_def Let_def split: sum.splits)

text \<open>
  Claim C7. Once the tool server has answered with a JSON body, the \<^verbatim>\<open>ok\<close> flag of the
  response plays no part. A body whose \<^verbatim>\<open>error\<close> field is truthy yields the reply
  \<^verbatim>\<open>{success: false}\<close> whose reason is the error's message when that is a non-empty
  string, and the JSON text of the error when it has no truthy message; a body without
  a truthy \<^verbatim>\<open>error\<close> field yields a success reply with the body as data, also under a
  non-success status.
\<close>

theorem body_error_is_failure:
  assumes "action rq = ''executeAHP''"
    and "getBearerToken e s = (Inr tok, s', calls)"
    and "URL_new e (url rq) = Some u"
    and "tool_fetch e (tool_url e tok u) = Response ok (Json r)"
  shows "(\<forall>err m. get_prop r ''error'' = Some err \<and> truthy err \<and>
            get_prop err ''message'' = Some (JStr m) \<and> m \<noteq> [] \<longrightarrow>
            fst (onMessage e s rq) = [\<lparr>success = False, data = None, error = Some m\<rparr>]) \<and>
         (\<forall>err. get_prop r ''error'' = Some err \<and> truthy err \<and>
            \<not> truthy_opt (get_prop err ''message'') \<longrightarrow>
            fst (onMessage e s rq) =
              [\<lparr>success = False, data = None, error = Some (JSON_stringify e err)\<rparr>]) \<and>
         (r \<noteq> JNull \<and> \<not> truthy_opt (get_prop r ''error'') \<longrightarrow>
            fst (onMessage e s rq) = [\<lparr>success = True, data = Some r, error = None\<rparr>])"
  unfolding onMessage_tool_result [OF assms]
  by (auto simp: tool_result_def to_str_def truthy_opt_def split: option.splits)

theorem body_error_is_failure_witness:
  "tool_fetch env_example ''http://server/generate_qr_code?data=hello&bearer_token=T1''
     = Response True (Json (JObj [(''error'', JObj [(''message'', JStr ''insufficient funds'')])])) \<and>
   fst (onMessage env_example session_T1 request_echo)
     = [\<lparr>success = False, data = None, error = Some ''insufficient funds''\<rparr>]"
proof -
  have a: "action request_echo = ''executeAHP''" by (simp add: request_echo_def)
  have g: "getBearerToken env_example session_T1 = (Inr (JStr ''T1''), session_T1, [])"
    by (simp add: getBearerToken_def cached_def session_T1_def env_example_def)
  have u: "URL_new env_example (url request_echo)
      = Some \<lparr>url_base = ''http://server/generate_qr_code'', url_query = Some ''data=hello'',
              url_fragment = None\<rparr>"
    by (simp add: URL_new_def request_echo_def env_example_def url_trim_def split_first_def
        c0_or_space_def tab_or_newline_def)
  have t: "tool_url env_example (JStr ''T1'')
       \<lparr>url_base = ''http://server/generate_qr_code'', url_query = Some ''data=hello'',
              url_fragment = None\<rparr> = ''http://server/generate_qr_code?data=hello&bearer_token=T1''"
    by (simp add: tool_url_def url_toString_def searchParams_set_def searchParams_def
        urlencoded_parse_def urlencoded_serialize_def parse_pair_def split_first_def
        plus_to_space_def byte_serialize_def form_safe_def is_alnum_def to_str_def)
  have f: "tool_fetch env_example (tool_url env_example (JStr ''T1'')
       \<lparr>url_base = ''http://server/generate_qr_code'', url_query = Some ''data=hello'',
              url_fragment = None\<rparr>)
      = Response True (Json (JObj [(''error'', JObj [(''message'', JStr ''insufficient funds'')])]))"
    by (simp add: env_example_def)
  from body_error_is_failure [OF a g u f] show ?thesis
    by (simp add: t env_example_def)
qed

subsection \<open>The form-urlencoded serializer and parser are inverse\<close>

lemma hex_digit_ok:
  assumes "n < 16"
  shows "is_hex (hex_digit n) \<and> hex_val (hex_digit n) = n \<and>
         hex_digit n \<notin> set ''+&=#%''"
proof -
  from assms have "n \<in> {0,1,2,3,4,5,6,7,8,9,10,11,12,13,14,15}"
    by simp arith
  then show ?thesis
    by (auto simp: hex_digit_def is_hex_def hex_val_def)
qed

lemma percent_decode_plain:
  "c \<noteq> CHR ''%'' \<Longrightarrow> percent_decode (c # r) = c # percent_decode r"
proof (cases r)
  case Nil then show ?thesis by simp
next
  case (Cons a r')
  assume "c \<noteq> CHR ''%''"
  then show ?thesis using Cons by (cases r') simp_all
qed

lemma of_char_split: "(of_char c :: nat) div 16 * 16 + of_char c mod 16 = of_char c"
  by simp

lemma of_char_div16: "(of_char c :: nat) div 16 < 16"
proof -
  have "(of_char c :: nat) mod 256 = of_char c" by (rule of_char_mod_256)
  then have "(of_char c :: nat) < 256" by (metis mod_less_divisor zero_less_numeral)
  then show ?thesis by arith
qed

lemma percent_decode_pct: "percent_decode (pct c @ r) = c # percent_decode r"
proof -
  let ?h = "hex_digit (of_char c div 16)" and ?l = "hex_digit (of_char c mod 16)"
  have h: "is_hex ?h" "hex_val ?h = of_char c div 16"
    using hex_digit_ok [OF of_char_div16 [of c]] by simp_all
  have l: "is_hex ?l" "hex_val ?l = of_char c mod 16"
    using hex_digit_ok [of "of_char c mod 16"] by simp_all
  have "char_of (hex_val ?h * 16 + hex_val ?l) = c"
    by (simp only: h l of_char_split char_of_char)
  then show ?thesis using h l by (simp add: pct_def)
qed

lemma pct_chars: "set (pct c) \<inter> set ''+&=#'' = {}"
  using hex_digit_ok [OF of_char_div16 [of c]] hex_digit_ok [of "of_char c mod 16"]
  by (auto simp: pct_def)

lemma form_safe_plain: "form_safe c \<Longrightarrow> c \<notin> set ''+&=#% ''"
  by (auto simp: form_safe_def is_alnum_def)

lemma byte_serialize_chars: "set (byte_serialize s) \<inter> set ''&=#'' = {}"
proof (induction s)
  case Nil then show ?case by (simp add: byte_serialize_def)
next
  case (Cons c s)
  have "set (byte_serialize (c # s)) =
      set (if c = CHR '' '' then ''+'' else if form_safe c then [c] else pct c) \<union> set (byte_serialize s)"
    by (simp add: byte_serialize_def)
  then show ?case using Cons pct_chars [of c] form_safe_plain [of c] by auto
qed

lemma byte_serialize_Cons:
  "byte_serialize (c # s) =
     (if c = CHR '' '' then ''+'' else if form_safe c then [c] else pct c) @ byte_serialize s"
  by (simp add: byte_serialize_def)

lemma plus_to_space_append: "plus_to_space (a @ b) = plus_to_space a @ plus_to_space b"
  by (simp add: plus_to_space_def)

lemma plus_to_space_pct: "plus_to_space (pct c) = pct c"
  using pct_chars [of c] unfolding plus_to_space_def by (intro map_idI) auto

lemma plus_to_space_Cons:
  "plus_to_space (c # r) = (if c = CHR ''+'' then CHR '' '' else c) # plus_to_space r"
  by (simp add: plus_to_space_def)

lemma decode_serialize: "percent_decode (plus_to_space (byte_serialize s)) = s"
proof (induction s)
  case Nil then show ?case by (simp add: byte_serialize_def plus_to_space_def)
next
  case (Cons c s)
  show ?case
  proof (cases "c = CHR '' ''")
    case True
    then show ?thesis using Cons
      by (simp add: byte_serialize_Cons plus_to_space_append percent_decode_plain)
         (simp add: plus_to_space_def percent_decode_plain)
  next
    case False
    show ?thesis
    proof (cases "form_safe c")
      case True
      with form_safe_plain [of c] have "c \<noteq> CHR ''+''" "c \<noteq> CHR ''%''" by auto
      then show ?thesis using Cons True False
        by (simp add: byte_serialize_Cons plus_to_space_Cons percent_decode_plain)
    next
      case nsafe: False
      then show ?thesis using Cons False
        by (simp add: byte_serialize_Cons plus_to_space_append plus_to_space_pct percent_decode_pct)
    qed
  qed
qed

lemma split_on_nonempty: "split_on d s \<noteq> []"
  by (induction s) (auto split: list.splits)

lemma split_on_plain: "d \<notin> set a \<Longrightarrow> split_on d a = [a]"
  by (induction a) auto

lemma split_on_append: "d \<notin> set a \<Longrightarrow> split_on d (a @ d # r) = a # split_on d r"
  by (induction a) (auto split: list.splits)

lemma split_first_found: "d \<notin> set a \<Longrightarrow> split_first d (a @ d # r) = (a, Some r)"
  by (simp add: split_first_def takeWhile_append1 dropWhile_append3 takeWhile_tail dropWhile_append)

lemma ser_pair_chars: "CHR ''&'' \<notin> set (ser_pair p)" "ser_pair p \<noteq> []"
  using byte_serialize_chars [of "fst p"] byte_serialize_chars [of "snd p"]
  by (auto simp: ser_pair_def)

lemma parse_ser_pair: "parse_pair (ser_pair p) = p"
proof -
  have "CHR ''='' \<notin> set (byte_serialize (fst p))"
    using byte_serialize_chars [of "fst p"] by auto
  then have "split_first CHR ''='' (ser_pair p) = (byte_serialize (fst p), Some (byte_serialize (snd p)))"
    unfolding ser_pair_def by (simp add: split_first_found)
  then show ?thesis by (simp add: parse_pair_def decode_serialize)
qed

lemma urlencoded_serialize_alt: "urlencoded_serialize l = join_amp (map ser_pair l)"
proof -
  have "(\<lambda>(n, v). byte_serialize n @ ''='' @ byte_serialize v) = ser_pair"
    by (auto simp: ser_pair_def fun_eq_iff)
  then show ?thesis by (simp only: urlencoded_serialize_def)
qed

lemma urlencoded_roundtrip: "urlencoded_parse (urlencoded_serialize l) = l"
proof -
  have "filter (\<lambda>s. s \<noteq> []) (split_on CHR ''&'' (join_amp (map ser_pair l))) = map ser_pair l"
  proof (induction l rule: induct_list012)
    case 1 then show ?case by simp
  next
    case (2 p)
    then show ?case using ser_pair_chars [of p] by (simp add: split_on_plain)
  next
    case (3 p q l)
    then show ?case using ser_pair_chars [of p] by (simp add: split_on_append)
  qed
  then show ?thesis
    by (simp add: urlencoded_parse_def urlencoded_serialize_alt parse_ser_pair map_idI)
qed

lemma set_param_named:
  "filter (\<lambda>(k, _). k = n) (set_param n v l) = [(n, v)]"
  by (induction l) (auto simp: filter_empty_conv)

lemma set_param_others:
  "filter (\<lambda>(k, _). k \<noteq> n) (set_param n v l) = filter (\<lambda>(k, _). k \<noteq> n) l"
  by (induction l) (auto)

subsection \<open>The URL that is fetched\<close>

lemma onMessage_calls:
  assumes "action rq = ''executeAHP''"
    and "getBearerToken e s = (Inr tok, s', calls)"
    and "URL_new e (url rq) = Some u"
  shows "fst (snd (snd (onMessage e s rq))) = calls @ [ToolFetch (tool_url e tok u)]"
  using assms
  by (simp add: onMessage_def executeAHP_def Let_def
      split: fetch_result.splits body.splits sum.splits)

lemma searchParams_after_set:
  "searchParams (searchParams_set n v u) = set_param n v (searchParams u)"
  by (simp add: searchParams_def searchParams_set_def urlencoded_roundtrip)

text \<open>
  Claim C6. For an \<^verbatim>\<open>executeAHP\<close> request whose token was acquired and whose URL parses,
  the one fetch of the tool server goes to the request URL with its query rewritten by
  \<^verbatim>\<open>searchParams.set\<close>: read back with the form-urlencoded parser, that query holds exactly
  one \<^verbatim>\<open>bearer_token\<close> parameter, whose value is the token the broker returned, and the
  other parameters of the request URL unchanged. No \<^verbatim>\<open>bearer_token\<close> value supplied by
  the caller survives.
\<close>

theorem fetched_url_carries_broker_token:
  assumes "action rq = ''executeAHP''"
    and "getBearerToken e s = (Inr tok, s', calls)"
    and "URL_new e (url rq) = Some u"
  shows "\<exists>q. fst (snd (snd (onMessage e s rq)))
              = calls @ [ToolFetch (url_base u @ ''?'' @ q
                   @ (case url_fragment u of None \<Rightarrow> [] | Some f \<Rightarrow> ''#'' @ f))] \<and>
             tool_count calls = 0 \<and>
             named ''bearer_token'' (urlencoded_parse q) = [(''bearer_token'', to_str e tok)] \<and>
             not_named ''bearer_token'' (urlencoded_parse q)
               = not_named ''bearer_token'' (searchParams u)"
proof -
  let ?u = "searchParams_set ''bearer_token'' (to_str e tok) u"
  let ?q = "urlencoded_serialize (set_param ''bearer_token'' (to_str e tok) (searchParams u))"
  have "tool_url e tok u = url_base u @ ''?'' @ ?q
                   @ (case url_fragment u of None \<Rightarrow> [] | Some f \<Rightarrow> ''#'' @ f)"
    by (simp add: tool_url_def url_toString_def searchParams_set_def)
  moreover have "urlencoded_parse ?q = set_param ''bearer_token'' (to_str e tok) (searchParams u)"
    by (rule urlencoded_roundtrip)
  moreover have "tool_count calls = 0"
    using getBearerToken_calls [OF assms(2)] by simp
  ultimately show ?thesis
    using onMessage_calls [OF assms]
    by (intro exI [of _ ?q]) (simp add: named_def not_named_def set_param_named set_param_others)
qed

theorem fetched_url_carries_broker_token_witness:
  "fst (snd (snd (onMessage env_example session_T1 request_spoof)))
     = [ToolFetch ''http://server/echo?bearer_token=T1&text=hi''] \<and>
   named ''bearer_token'' (urlencoded_parse ''bearer_token=T1&text=hi'') = [(''bearer_token'', ''T1'')]"
proof -
  have a: "action request_spoof = ''executeAHP''" by (simp add: request_spoof_def)
  have g: "getBearerToken env_example session_T1 = (Inr (JStr ''T1''), session_T1, [])"
    by (simp add: getBearerToken_def cached_def session_T1_def env_example_def)
  have u: "URL_new env_example (url request_spoof)
      = Some \<lparr>url_base = ''http://server/echo'',
              url_query = Some ''bearer_token=EVIL&text=hi&bearer_token=OLD'',
              url_fragment = None\<rparr>"
    by (simp add: URL_new_def request_spoof_def env_example_def url_trim_def split_first_def
        c0_or_space_def tab_or_newline_def)
  have p: "urlencoded_parse ''bearer_token=T1&text=hi'' = [(''bearer_token'', ''T1''), (''text'', ''hi'')]"
    by (simp add: urlencoded_parse_def parse_pair_def split_first_def plus_to_space_def)
  have t: "tool_url env_example (JStr ''T1'')
       \<lparr>url_base = ''http://server/echo'',
              url_query = Some ''bearer_token=EVIL&text=hi&bearer_token=OLD'',
              url_fragment = None\<rparr> = ''http://server/echo?bearer_token=T1&text=hi''"
    by (simp add: tool_url_def url_toString_def searchParams_set_def searchParams_def
        urlencoded_parse_def urlencoded_serialize_def parse_pair_def split_first_def
        plus_to_space_def byte_serialize_def form_safe_def is_alnum_def to_str_def)
  from fetched_url_carries_broker_token [OF a g u] onMessage_calls [OF a g u]
  show ?thesis by (simp add: t p named_def)
qed

section \<open>Properties of the result injector\<close>





section \<open>Properties of the detection engine\<close>













lemma pattern_literal_plain:
  "c \<noteq> backslash \<Longrightarrow> pattern_literal (c # r) = c # pattern_literal r"
  by (cases r) simp_all

lemma pattern_literal_escapedUrl: "pattern_literal (escapedUrl s) = s"
  by (induction s) (simp_all add: escapedUrl_def escape_char_def pattern_literal_plain)








section \<open>Properties of the auth request\<close>

lemma percent_decode_length: "length (percent_decode s) \<le> length s"
  by (induction s rule: percent_decode.induct) auto

lemma percent_decode_no_escape: "\<not> has_escape s \<Longrightarrow> percent_decode s = s"
  by (induction s rule: percent_decode.induct) auto

lemma percent_decode_escape: "has_escape s \<Longrightarrow> length (percent_decode s) < length s"
proof (induction s rule: percent_decode.induct)
  case (1 c h1 h2 r)
  show ?case
  proof (cases "c = CHR ''%'' \<and> is_hex h1 \<and> is_hex h2")
    case True
    then show ?thesis using percent_decode_length [of r] by simp
  next
    case False
    with 1 show ?thesis by auto
  qed
qed simp_all

lemma percent_decode_fixed: "percent_decode s = s \<longleftrightarrow> \<not> has_escape s"
  using percent_decode_escape [of s] percent_decode_no_escape [of s] by fastforce

lemma plus_to_space_length: "length (plus_to_space s) = length s"
  by (simp add: plus_to_space_def)

lemma plus_to_space_fixed: "plus_to_space s = s \<longleftrightarrow> CHR ''+'' \<notin> set s"
  by (induction s) (auto simp: plus_to_space_def)

lemma decode_value_fixed:
  "percent_decode (plus_to_space s) = s \<longleftrightarrow> CHR ''+'' \<notin> set s \<and> \<not> has_escape s"
proof
  assume a: "percent_decode (plus_to_space s) = s"
  have "\<not> has_escape (plus_to_space s)"
  proof
    assume "has_escape (plus_to_space s)"
    from percent_decode_escape [OF this] a show False by (simp add: plus_to_space_length)
  qed
  then have "percent_decode (plus_to_space s) = plus_to_space s"
    by (rule percent_decode_no_escape)
  with a have "plus_to_space s = s" by simp
  with \<open>\<not> has_escape (plus_to_space s)\<close> show "CHR ''+'' \<notin> set s \<and> \<not> has_escape s"
    by (simp add: plus_to_space_fixed)
next
  assume "CHR ''+'' \<notin> set s \<and> \<not> has_escape s"
  then show "percent_decode (plus_to_space s) = s"
    by (simp add: plus_to_space_fixed [THEN iffD2] percent_decode_no_escape)
qed

lemma hex_digit_char: "n < 16 \<Longrightarrow> hex_digit n \<in> set ''0123456789ABCDEF''"
  unfolding hex_digit_def by (simp only: nth_mem length_Cons list.size)

lemma pct_visible: "c' \<in> set (pct c) \<Longrightarrow> c' \<in> set ''%0123456789ABCDEF''"
  using hex_digit_char [OF of_char_div16 [of c]] hex_digit_char [of "of_char c mod 16"]
  by (auto simp: pct_def)

lemma uri_unreserved_visible:
  "uri_unreserved c \<Longrightarrow> c \<notin> set ''&#+=?%'' \<and> \<not> c0_or_space c \<and> \<not> tab_or_newline c"
  by (auto simp: uri_unreserved_def is_alnum_def c0_or_space_def tab_or_newline_def)

lemma encodeURIComponent_chars:
  assumes "c \<in> set (encodeURIComponent s)"
  shows "c \<notin> set ''&#+=?'' \<and> \<not> c0_or_space c \<and> \<not> tab_or_newline c"
proof -
  from assms have "\<exists>x. c \<in> set (if uri_unreserved x then [x] else pct x)"
    unfolding encodeURIComponent_def by auto
  then obtain x where "c \<in> set (if uri_unreserved x then [x] else pct x)" ..
  then consider "uri_unreserved c" | x' where "c \<in> set (pct x')"
    by (auto split: if_splits)
  then show ?thesis
  proof cases
    case 1 then show ?thesis using uri_unreserved_visible by simp
  next
    case 2
    from pct_visible [OF this] show ?thesis
      by (auto simp: c0_or_space_def tab_or_newline_def)
  qed
qed

lemma encodeURIComponent_Cons:
  "encodeURIComponent (c # s) = (if uri_unreserved c then [c] else pct c) @ encodeURIComponent s"
  by (simp add: encodeURIComponent_def)

lemma decode_encodeURIComponent: "percent_decode (plus_to_space (encodeURIComponent s)) = s"
proof (induction s)
  case Nil then show ?case by (simp add: encodeURIComponent_def plus_to_space_def)
next
  case (Cons c s)
  show ?case
  proof (cases "uri_unreserved c")
    case True
    with uri_unreserved_visible [of c] have "c \<noteq> CHR ''+''" "c \<noteq> CHR ''%''" by auto
    then show ?thesis using Cons True
      by (simp add: encodeURIComponent_Cons plus_to_space_Cons percent_decode_plain)
  next
    case False
    then show ?thesis using Cons
      by (simp add: encodeURIComponent_Cons plus_to_space_append plus_to_space_pct percent_decode_pct)
  qed
qed

lemma split_on_hom: "split_on d (a @ d # r) = split_on d a @ split_on d r"
proof (induction a)
  case Nil then show ?case by simp
next
  case (Cons x a)
  obtain y ys where y: "split_on d a = y # ys"
    using split_on_nonempty [of d a] by (cases "split_on d a") auto
  with Cons show ?case by (simp split: list.splits)
qed

lemma split_on_length:
  "seg \<in> set (split_on d s) \<Longrightarrow> length seg \<le> length s \<and> (d \<in> set s \<longrightarrow> length seg < length s)"
proof (induction s arbitrary: seg)
  case Nil then show ?case by simp
next
  case (Cons x s)
  show ?case
  proof (cases "x = d")
    case True
    with Cons.prems have "seg = [] \<or> seg \<in> set (split_on d s)" by simp
    then show ?thesis using Cons.IH [of seg] by auto
  next
    case False
    obtain y ys where y: "split_on d s = y # ys"
      using split_on_nonempty [of d s] by (cases "split_on d s") auto
    with False Cons.prems have "seg = x # y \<or> seg \<in> set ys" by simp
    then show ?thesis
    proof
      assume "seg = x # y"
      moreover have "y \<in> set (split_on d s)" using y by simp
      ultimately show ?thesis using Cons.IH [of y] False by auto
    next
      assume "seg \<in> set ys"
      then have "seg \<in> set (split_on d s)" using y by simp
      then show ?thesis using Cons.IH [of seg] by auto
    qed
  qed
qed

lemma split_first_absent: "d \<notin> set s \<Longrightarrow> split_first d s = (s, None)"
  by (simp add: split_first_def)

lemma split_first_takeWhile: "fst (split_first d s) = takeWhile (\<lambda>c. c \<noteq> d) s"
proof (cases "d \<in> set s")
  case True then show ?thesis by (simp add: split_first_def)
next
  case False
  then have t: "takeWhile (\<lambda>c. c \<noteq> d) s = s" by (induction s) auto
  have "split_first d s = (s, None)" using False by (simp add: split_first_def)
  then show ?thesis using t by (simp only: fst_conv)
qed

lemma parse_pair_length:
  assumes "parse_pair seg = (n, v)"
  shows "v = [] \<or> length n + length v + 1 \<le> length seg"
proof (cases "CHR ''='' \<in> set seg")
  case False
  with assms show ?thesis by (simp add: parse_pair_def split_first_absent)
next
  case True
  then obtain a b where seg: "seg = a @ CHR ''='' # b" and a: "CHR ''='' \<notin> set a"
    by (meson split_list_first)
  from assms have "n = percent_decode (plus_to_space a)" "v = percent_decode (plus_to_space b)"
    unfolding seg by (simp_all add: parse_pair_def split_first_found [OF a])
  then have "length n \<le> length a" "length v \<le> length b"
    using percent_decode_length [of "plus_to_space a"] percent_decode_length [of "plus_to_space b"]
    by (simp_all add: plus_to_space_length)
  then show ?thesis unfolding seg by simp
qed

lemma received_from_segment:
  assumes "v \<in> set (map snd (named n (urlencoded_parse q)))"
  shows "\<exists>seg \<in> set (split_on CHR ''&'' q). seg \<noteq> [] \<and> parse_pair seg = (n, v)"
proof -
  from assms have "(n, v) \<in> set (urlencoded_parse q)"
    by (auto simp: named_def)
  then obtain seg where "seg \<in> set (split_on CHR ''&'' q)" "seg \<noteq> []" "parse_pair seg = (n, v)"
    unfolding urlencoded_parse_def by auto
  then show ?thesis by blast
qed

subsection \<open>The query of the auth request\<close>

lemma trim_ends:
  assumes "m \<noteq> []" and "\<not> c0_or_space (hd m)" and "\<not> c0_or_space (last m)"
  shows "rev (dropWhile c0_or_space (rev (dropWhile c0_or_space (s @ m))))
           = dropWhile c0_or_space s @ m"
proof -
  have front: "dropWhile c0_or_space (s @ m) = dropWhile c0_or_space s @ m"
  proof (cases "\<forall>x \<in> set s. c0_or_space x")
    case True
    then have "dropWhile c0_or_space s = []" by simp
    moreover have "dropWhile c0_or_space m = m" using assms(1,2) by (cases m) auto
    ultimately show ?thesis using True by (simp add: dropWhile_append)
  next
    case False
    then show ?thesis by (auto simp: dropWhile_append)
  qed
  from assms(1) obtain b l where m: "m = b @ [l]" by (cases m rule: rev_cases) auto
  with assms(3) have "\<not> c0_or_space l" by simp
  then have "dropWhile c0_or_space (rev (dropWhile c0_or_space s @ m)) = rev (dropWhile c0_or_space s @ m)"
    unfolding m by simp
  then show ?thesis unfolding front by simp
qed

lemma filter_no_hash: "CHR ''#'' \<in> set (filter (\<lambda>c. \<not> tab_or_newline c) k) \<longleftrightarrow> CHR ''#'' \<in> set k"
  by (auto simp: tab_or_newline_def)

lemma filter_encoded:
  "filter (\<lambda>c. \<not> tab_or_newline c) (encodeURIComponent mail) = encodeURIComponent mail"
  using encodeURIComponent_chars [of _ mail] by (simp add: filter_id_conv)

lemma auth_url_trim:
  "url_trim (auth_url serverUrl key mail) =
     filter (\<lambda>c. \<not> tab_or_newline c) (dropWhile c0_or_space serverUrl)
       @ ''/auth?token='' @ filter (\<lambda>c. \<not> tab_or_newline c) key
       @ ''&agent_id='' @ encodeURIComponent mail"
proof -
  let ?m = "''/auth?token='' @ key @ ''&agent_id='' @ encodeURIComponent mail"
  have l: "\<not> c0_or_space (last ?m)"
  proof (cases "encodeURIComponent mail = []")
    case True then show ?thesis by (simp add: c0_or_space_def)
  next
    case False
    then have "last ?m \<in> set (encodeURIComponent mail)" by simp
    then show ?thesis using encodeURIComponent_chars by blast
  qed
  have h: "\<not> c0_or_space (hd ?m)" by (simp add: c0_or_space_def)
  have "auth_url serverUrl key mail = serverUrl @ ?m" by (simp add: auth_url_def)
  then have "url_trim (auth_url serverUrl key mail)
      = filter (\<lambda>c. \<not> tab_or_newline c) (dropWhile c0_or_space serverUrl @ ?m)"
    unfolding url_trim_def using trim_ends [of ?m serverUrl, OF _ h l] by simp
  moreover have "filter (\<lambda>c. \<not> tab_or_newline c) ''/auth?token='' = ''/auth?token=''"
    and "filter (\<lambda>c. \<not> tab_or_newline c) ''&agent_id='' = ''&agent_id=''"
    by (simp_all add: tab_or_newline_def)
  ultimately show ?thesis by (simp only: filter_append filter_encoded)
qed

lemma auth_request_query:
  assumes "CHR ''?'' \<notin> set serverUrl" and "CHR ''#'' \<notin> set serverUrl"
  shows "request_query (auth_url serverUrl key mail) = Some (''token='' @ key_part key mail)"
proof -
  let ?s = "filter (\<lambda>c. \<not> tab_or_newline c) (dropWhile c0_or_space serverUrl)"
  let ?fk = "filter (\<lambda>c. \<not> tab_or_newline c) key"
  let ?rest = "?fk @ ''&agent_id='' @ encodeURIComponent mail"
  have s: "CHR ''?'' \<notin> set ?s" "CHR ''#'' \<notin> set ?s"
    using assms set_dropWhileD [of _ c0_or_space serverUrl] by auto
  have e: "CHR ''#'' \<notin> set (encodeURIComponent mail)"
    using encodeURIComponent_chars [of "CHR ''#''" mail] by auto
  have t: "url_trim (auth_url serverUrl key mail) = (?s @ ''/auth?token='') @ ?rest"
    by (simp add: auth_url_trim)
  have nh: "CHR ''#'' \<notin> set (?s @ ''/auth?token='')" using s by simp
  have pre: "fst (split_first CHR ''#'' (url_trim (auth_url serverUrl key mail)))
      = (?s @ ''/auth?token='') @ takeWhile (\<lambda>c. c \<noteq> CHR ''#'') ?rest"
    unfolding split_first_takeWhile t by (rule takeWhile_append2) (use nh in auto)
  have k: "takeWhile (\<lambda>c. c \<noteq> CHR ''#'') ?rest = key_part key mail"
  proof (cases "CHR ''#'' \<in> set key")
    case True
    then have "CHR ''#'' \<in> set ?fk" by (simp only: filter_no_hash)
    then show ?thesis using True by (simp add: key_part_def takeWhile_append1 Let_def)
  next
    case False
    then have "\<forall>c \<in> set ?rest. c \<noteq> CHR ''#''" using e by auto
    then have "takeWhile (\<lambda>c. c \<noteq> CHR ''#'') ?rest = ?rest"
      by (simp only: takeWhile_eq_all_conv)
    then show ?thesis using False by (simp add: key_part_def Let_def)
  qed
  have "(?s @ ''/auth?token='') @ key_part key mail
      = (?s @ ''/auth'') @ CHR ''?'' # (''token='' @ key_part key mail)" by simp
  moreover have "CHR ''?'' \<notin> set (?s @ ''/auth'')" using s by simp
  ultimately have "split_first CHR ''?'' ((?s @ ''/auth?token='') @ key_part key mail)
      = (?s @ ''/auth'', Some (''token='' @ key_part key mail))"
    using split_first_found by metis
  then show ?thesis
    unfolding request_query_def using pre k by (simp add: case_prod_beta)
qed

subsection \<open>What the endpoint receives\<close>

lemma parse_token_segment:
  "parse_pair (''token='' @ v) = (''token'', percent_decode (plus_to_space v))"
proof -
  have "split_first CHR ''='' (''token'' @ CHR ''='' # v) = (''token'', Some v)"
    by (rule split_first_found) simp
  then show ?thesis by (simp add: parse_pair_def plus_to_space_def)
qed

lemma parse_agent_segment:
  "parse_pair (''agent_id='' @ encodeURIComponent mail) = (''agent_id'', mail)"
proof -
  have "split_first CHR ''='' (''agent_id'' @ CHR ''='' # encodeURIComponent mail)
      = (''agent_id'', Some (encodeURIComponent mail))"
    by (rule split_first_found) simp
  moreover have "percent_decode (plus_to_space ''agent_id'') = ''agent_id''"
    by (simp add: plus_to_space_def)
  ultimately show ?thesis by (simp add: parse_pair_def decode_encodeURIComponent)
qed

lemma agent_segment_plain: "CHR ''&'' \<notin> set (''agent_id='' @ encodeURIComponent mail)"
  using encodeURIComponent_chars [of "CHR ''&''" mail] by auto

lemma parse_two:
  assumes "CHR ''&'' \<notin> set fk"
  shows "urlencoded_parse (''token='' @ fk @ ''&agent_id='' @ encodeURIComponent mail)
           = [(''token'', percent_decode (plus_to_space fk)), (''agent_id'', mail)]"
proof -
  have a: "CHR ''&'' \<notin> set (''token='' @ fk)" using assms by simp
  have "''token='' @ fk @ ''&agent_id='' @ encodeURIComponent mail
      = (''token='' @ fk) @ CHR ''&'' # (''agent_id='' @ encodeURIComponent mail)" by simp
  then have "split_on CHR ''&'' (''token='' @ fk @ ''&agent_id='' @ encodeURIComponent mail)
      = [''token='' @ fk, ''agent_id='' @ encodeURIComponent mail]"
    using split_on_append [OF a] split_on_plain [OF agent_segment_plain] by metis
  then show ?thesis
    unfolding urlencoded_parse_def
    by (simp add: parse_token_segment parse_agent_segment del: append.simps)
qed

lemma filter_intact:
  "list_all (\<lambda>c. c \<notin> set ''&#+'' \<and> \<not> tab_or_newline c) k \<Longrightarrow>
     filter (\<lambda>c. \<not> tab_or_newline c) k = k \<and> CHR ''&'' \<notin> set k \<and> CHR ''#'' \<notin> set k \<and> CHR ''+'' \<notin> set k"
  by (induction k) auto

lemma received_token_intact:
  assumes "CHR ''?'' \<notin> set serverUrl" and "CHR ''#'' \<notin> set serverUrl" and "key_intact key"
  shows "received ''token'' (auth_url serverUrl key mail) = [key]"
proof -
  from assms(3) have f: "filter (\<lambda>c. \<not> tab_or_newline c) key = key"
    and k: "CHR ''&'' \<notin> set key" "CHR ''#'' \<notin> set key" "CHR ''+'' \<notin> set key"
    and e: "\<not> has_escape key"
    using filter_intact [of key] by (simp_all add: key_intact_def)
  have "key_part key mail = key @ ''&agent_id='' @ encodeURIComponent mail"
    using f k by (simp add: key_part_def)
  then have "request_query (auth_url serverUrl key mail)
      = Some (''token='' @ key @ ''&agent_id='' @ encodeURIComponent mail)"
    using auth_request_query [OF assms(1,2)] by simp
  moreover have "percent_decode (plus_to_space key) = key"
    using k e by (simp add: decode_value_fixed)
  ultimately show ?thesis
    using parse_two [OF k(1), of mail] by (simp add: received_def named_def)
qed

lemma received_agent_id:
  assumes "CHR ''?'' \<notin> set serverUrl" and "CHR ''#'' \<notin> set serverUrl"
    and "CHR ''&'' \<notin> set key" and "CHR ''#'' \<notin> set key"
  shows "received ''agent_id'' (auth_url serverUrl key mail) = [mail]"
proof -
  let ?fk = "filter (\<lambda>c. \<not> tab_or_newline c) key"
  have a: "CHR ''&'' \<notin> set ?fk" using assms(3) by simp
  have "key_part key mail = ?fk @ ''&agent_id='' @ encodeURIComponent mail"
    using assms(4) by (simp add: key_part_def)
  then have "request_query (auth_url serverUrl key mail)
      = Some (''token='' @ ?fk @ ''&agent_id='' @ encodeURIComponent mail)"
    using auth_request_query [OF assms(1,2)] by simp
  then show ?thesis
    using parse_two [OF a, of mail] by (simp add: received_def named_def)
qed

lemma takeWhile_shorter: "x \<in> set xs \<Longrightarrow> \<not> P x \<Longrightarrow> length (takeWhile P xs) < length xs"
  by (induction xs) auto

lemma filter_same_length: "length (filter P xs) = length xs \<Longrightarrow> filter P xs = xs"
proof (induction xs)
  case Nil then show ?case by simp
next
  case (Cons x xs)
  have "length (filter P xs) \<le> length xs" by simp
  with Cons show ?case by (cases "P x") auto
qed

lemma key_intact_iff:
  "key_intact k \<longleftrightarrow>
     filter (\<lambda>c. \<not> tab_or_newline c) k = k \<and> CHR ''&'' \<notin> set k \<and> CHR ''#'' \<notin> set k \<and>
     CHR ''+'' \<notin> set k \<and> \<not> has_escape k"
  by (auto simp: key_intact_def list_all_iff filter_id_conv)

lemma received_token_broken:
  assumes "CHR ''?'' \<notin> set serverUrl" and "CHR ''#'' \<notin> set serverUrl"
    and "key \<in> set (received ''token'' (auth_url serverUrl key mail))"
  shows "key_intact key"
proof (cases "key = []")
  case True then show ?thesis by (simp add: key_intact_def)
next
  case nonempty: False
  let ?fk = "filter (\<lambda>c. \<not> tab_or_newline c) key"
  let ?q = "''token='' @ key_part key mail"
  have fk: "length ?fk \<le> length key" by simp
  from assms(3) have "key \<in> set (map snd (named ''token'' (urlencoded_parse ?q)))"
    by (simp add: received_def auth_request_query [OF assms(1,2)])
  from received_from_segment [OF this] obtain seg
    where seg: "seg \<in> set (split_on CHR ''&'' ?q)" "parse_pair seg = (''token'', key)" by blast
  from parse_pair_length [OF seg(2)] nonempty have len: "length key + 6 \<le> length seg" by simp
  show ?thesis
  proof (cases "CHR ''#'' \<in> set key")
    case True
    then have "CHR ''#'' \<in> set ?fk" by (simp only: filter_no_hash)
    then have "length (takeWhile (\<lambda>c. c \<noteq> CHR ''#'') ?fk) < length ?fk"
      by (rule takeWhile_shorter) simp
    with True have "length ?q < 6 + length ?fk" by (simp add: key_part_def)
    moreover from split_on_length [OF seg(1)] have "length seg \<le> length ?q" by blast
    ultimately have False using fk len by linarith
    then show ?thesis ..
  next
    case False
    let ?agent = "''agent_id='' @ encodeURIComponent mail"
    from False have "?q = (''token='' @ ?fk) @ CHR ''&'' # ?agent"
      by (simp add: key_part_def)
    then have "split_on CHR ''&'' ?q = split_on CHR ''&'' (''token='' @ ?fk) @ [?agent]"
      using split_on_hom [of "CHR ''&''" "''token='' @ ?fk" ?agent]
        split_on_plain [OF agent_segment_plain, of mail] by simp
    moreover have "seg \<noteq> ?agent" using seg(2) parse_agent_segment [of mail] by auto
    ultimately have in_tok: "seg \<in> set (split_on CHR ''&'' (''token='' @ ?fk))"
      using seg(1) by simp
    from split_on_length [OF in_tok]
    have b: "length seg \<le> 6 + length ?fk"
      and s: "CHR ''&'' \<in> set (''token='' @ ?fk) \<Longrightarrow> length seg < 6 + length ?fk"
      by simp_all
    from b len fk have eq: "length ?fk = length key" by linarith
    then have same: "?fk = key" by (rule filter_same_length)
    have amp: "CHR ''&'' \<notin> set key"
    proof
      assume "CHR ''&'' \<in> set key"
      then have "CHR ''&'' \<in> set (''token='' @ ?fk)" unfolding same by simp
      from s [OF this] len eq show False by linarith
    qed
    then have "CHR ''&'' \<notin> set (''token='' @ key)" by simp
    from split_on_plain [OF this] in_tok have "seg = ''token='' @ key" unfolding same by simp
    with seg(2) have "percent_decode (plus_to_space key) = key"
      by (simp only: parse_token_segment prod.inject)
    then have "CHR ''+'' \<notin> set key \<and> \<not> has_escape key" by (rule decode_value_fixed [THEN iffD1])
    with same amp False show ?thesis unfolding key_intact_iff by blast
  qed
qed

text \<open>
  Claim C10, as stated, fails: the key \<^verbatim>\<open>a=b\<close> contains the reserved character \<^verbatim>\<open>=\<close> and
  still reaches the endpoint as the \<^verbatim>\<open>token\<close> parameter unchanged; and with the key
  \<^verbatim>\<open>k#1\<close> no \<^verbatim>\<open>agent_id\<close> parameter reaches the endpoint at all, whatever the email.
\<close>

theorem key_verbatim_counterexample:
  "CHR ''='' \<in> set ''a=b'' \<and>
   auth_url default_server ''a=b'' ''a@b.com''
     = ''http://ahp.nuts.services/auth?token=a=b&agent_id=a%40b.com'' \<and>
   received ''token'' (auth_url default_server ''a=b'' ''a@b.com'') = [''a=b''] \<and>
   received ''agent_id'' (auth_url default_server ''k#1'' ''a@b.com'') = []"
  by code_simp

text \<open>
  Claim C10, amended. The auth URL is the server URL, \<^verbatim>\<open>/auth?token=\<close>, the pre-shared
  key as it is, \<^verbatim>\<open>&agent_id=\<close> and the email under \<^verbatim>\<open>encodeURIComponent\<close>. For a server
  URL without \<^verbatim>\<open>?\<close> and \<^verbatim>\<open>#\<close>, the \<^verbatim>\<open>token\<close> parameter received by the endpoint is
  exactly the key if and only if the key is intact: it contains none of \<^verbatim>\<open>&\<close>, \<^verbatim>\<open>#\<close>,
  \<^verbatim>\<open>+\<close>, tab, line feed and carriage return, and no \<^verbatim>\<open>%\<close> followed by two hexadecimal
  digits; when the key is not intact, no received \<^verbatim>\<open>token\<close> value equals it. The
  \<^verbatim>\<open>agent_id\<close> parameter received is exactly the email, for every email, whenever the key
  contains neither \<^verbatim>\<open>&\<close> nor \<^verbatim>\<open>#\<close>.
\<close>

theorem key_verbatim_email_encoded:
  assumes "CHR ''?'' \<notin> set serverUrl" and "CHR ''#'' \<notin> set serverUrl"
  shows "auth_url serverUrl key mail
           = serverUrl @ ''/auth?token='' @ key @ ''&agent_id='' @ encodeURIComponent mail \<and>
         (received ''token'' (auth_url serverUrl key mail) = [key] \<longleftrightarrow> key_intact key) \<and>
         (\<not> key_intact key \<longrightarrow> key \<notin> set (received ''token'' (auth_url serverUrl key mail))) \<and>
         (CHR ''&'' \<notin> set key \<and> CHR ''#'' \<notin> set key \<longrightarrow>
            received ''agent_id'' (auth_url serverUrl key mail) = [mail])"
proof -
  have a: "key_intact key \<Longrightarrow> received ''token'' (auth_url serverUrl key mail) = [key]"
    by (rule received_token_intact [OF assms])
  have b: "key \<in> set (received ''token'' (auth_url serverUrl key mail)) \<Longrightarrow> key_intact key"
    by (rule received_token_broken [OF assms])
  have c: "received ''token'' (auth_url serverUrl key mail) = [key] \<Longrightarrow> key_intact key"
    using b by simp
  have d: "CHR ''&'' \<notin> set key \<and> CHR ''#'' \<notin> set key \<longrightarrow>
            received ''agent_id'' (auth_url serverUrl key mail) = [mail]"
    using received_agent_id [OF assms] by blast
  have e: "auth_url serverUrl key mail
           = serverUrl @ ''/auth?token='' @ key @ ''&agent_id='' @ encodeURIComponent mail"
    by (simp add: auth_url_def)
  from a b c d e show ?thesis by blast
qed

theorem key_verbatim_email_encoded_witness:
  "CHR ''?'' \<notin> set default_server \<and> CHR ''#'' \<notin> set default_server \<and>
   key_intact ''k1'' \<and> \<not> key_intact ''k&1'' \<and>
   received ''token'' (auth_url default_server ''k1'' ''a@b.com'') = [''k1''] \<and>
   ''k&1'' \<notin> set (received ''token'' (auth_url default_server ''k&1'' ''a@b.com'')) \<and>
   received ''agent_id'' (auth_url default_server ''k1'' ''a@b.com'') = [''a@b.com'']"
proof -
  have s: "CHR ''?'' \<notin> set default_server" "CHR ''#'' \<notin> set default_server"
    by (simp_all add: default_server_def)
  have k: "key_intact ''k1''" "\<not> key_intact ''k&1''"
    by (simp_all add: key_intact_def tab_or_newline_def)
  have p: "CHR ''&'' \<notin> set ''k1'' \<and> CHR ''#'' \<notin> set ''k1''" by simp
  from key_verbatim_email_encoded [OF s, of "''k1''" "''a@b.com''"]
    key_verbatim_email_encoded [OF s, of "''k&1''" "''a@b.com''"] s k p
  show ?thesis by blast
qed

end
